theory Spec2Isabelle
  imports Main
begin

section \<open>The robot controller of \<^verbatim>\<open>final_outcome.py\<close>\<close>

text \<open>
  The program is a set of asyncio coroutines on one event loop. A coroutine runs
  without interruption from one \<^verbatim>\<open>await\<close> of an external operation (an SDK call or
  \<^verbatim>\<open>asyncio.sleep\<close>) to the next; other tasks run only while it is suspended there.
  The model follows that: a task is a program counter naming the \<^verbatim>\<open>await\<close> it is
  suspended at, \<open>resume\<close> runs a task from its suspension point to the next one, and
  \<open>step\<close> is one turn of the event loop, chosen by the environment (a stream delivers
  a message, or an awaited operation completes with a reply).

  The SDK (\<^verbatim>\<open>mini\<close>) is not part of the program. Each call of it is recorded as an
  action in the \<open>trace\<close>, and what it returns is supplied by the environment. Two of its
  calls raise where the program can reach them, and the program catches nothing:
  \<^verbatim>\<open>observer.stop()\<close> raises \<^verbatim>\<open>ValueError\<close> on an observer that is not started, and
  \<^verbatim>\<open>Mini.enter_program()\<close> raises \<^verbatim>\<open>RuntimeError\<close> when \<^verbatim>\<open>Mini.connect\<close> has returned
  \<^verbatim>\<open>False\<close>. The coroutine that made the call ends there, with the exception.
\<close>

subsection \<open>Values exchanged with the SDK\<close>

datatype MoveRobotDirection = FORWARD | BACKWARD | LEFTWARD | RIGHTWARD

text \<open>
  What \<^verbatim>\<open>block.execute()\<close> returns, as far as the program reads it:
  \<open>rt_success\<close> is \<^verbatim>\<open>resultType == MiniApiResultType.Success\<close> and \<open>is_success\<close> is
  \<^verbatim>\<open>response.isSuccess\<close>.
\<close>

record api_result =
  rt_success :: bool
  is_success :: bool

datatype WiFiDevice = WiFiDevice string

text \<open>
  The value an awaited operation completes with: nothing (\<^verbatim>\<open>asyncio.sleep\<close>,
  \<^verbatim>\<open>enter_program\<close>, \<^verbatim>\<open>quit_program\<close>, \<^verbatim>\<open>release\<close>, and the first scheduling of a
  new task), the result of an \<^verbatim>\<open>execute()\<close>, the device of
  \<^verbatim>\<open>Mini.get_device_by_name\<close> (\<^verbatim>\<open>None\<close> when none was found), or the boolean of
  \<^verbatim>\<open>Mini.connect\<close>.
\<close>

datatype reply = Ack | Api api_result | Found "WiFiDevice option" | Conn bool

text \<open>
  A recognised text (\<^verbatim>\<open>msg.text\<close>, a Python \<^verbatim>\<open>str\<close>) is the list of its code points;
  \<open>cps\<close> gives the code points of a literal.
\<close>

type_synonym unicode = "nat list"

definition cps :: "string \<Rightarrow> unicode" where
  "cps cs = map of_char cs"

subsection \<open>Program counters\<close>

text \<open>The four calls of \<^verbatim>\<open>move_robot\<close> in \<^verbatim>\<open>move_sequence\<close>, by source line.\<close>

datatype call_site = L49 | L50 | L51 | L52

text \<open>
  One constructor for each place a task can be suspended at. \<open>Speech_start\<close> and
  \<open>Ir_start\<close> are tasks made by \<^verbatim>\<open>asyncio.create_task(handler(msg))\<close> that have not
  run yet; they carry the message (and, for the infrared handler, the observer of the
  enclosing \<^verbatim>\<open>observe_infrared_distance\<close> call). \<open>Done\<close> is a coroutine that has
  returned, \<open>Raised\<close> one that has ended with an exception.
\<close>

datatype pc =
    Main_start
  | Main_discover
  | Main_connect
  | Main_enter
  | Main_idle
  | Speech_start unicode
  | Speech_hello_tts
  | Speech_hello_yield
  | Speech_finish_tts
  | Speech_quit
  | Speech_release
  | Ir_start nat int
  | Ir_tts nat
  | Ir_cool1 nat
  | Ir_retreat nat
  | Ir_retreat_settle nat
  | Ir_cool2 nat
  | Seq_move call_site
  | Seq_settle call_site
  | Seq_tts
  | Done
  | Raised

subsection \<open>State\<close>

text \<open>
  Every call the program makes to the outside, and every write of the global flag, in
  program order. \<open>Raising a\<close> is a call that raised.
\<close>

datatype action =
    Discover string nat
  | Connect WiFiDevice
  | EnterProgram
  | QuitProgram
  | Release
  | Tts string
  | Move MoveRobotDirection nat
  | Sleep nat
  | SpeechStart
  | SpeechStop
  | IrStart nat
  | IrStop nat
  | SetStop bool
  | Raising action

text \<open>The \<^verbatim>\<open>print\<close> and \<^verbatim>\<open>logging.info\<close> lines.\<close>

datatype diag =
    DeviceFound "WiFiDevice option"
  | TtsResponse api_result
  | MoveResult api_result
  | Distance int
  | RawSpeech unicode
  | RecognizedStart
  | RecognizedFinish

text \<open>
  \<open>STOP_MOVE_SEQUENCE\<close> is the module's global. \<open>speech_on\<close> says whether the speech
  observer is started, \<open>ir_on\<close> which infrared observers are; \<open>observers\<close> counts the
  infrared observers created so far (each call of \<^verbatim>\<open>observe_infrared_distance\<close> makes
  a new one). \<open>tasks\<close> is the task table of the event loop, the main coroutine first.
  \<open>str_lower\<close> is the interpreter's \<^verbatim>\<open>str.lower\<close> on texts that have a code point above
  255: its Unicode tables are not part of the program, and nothing writes this field.
\<close>

record state =
  STOP_MOVE_SEQUENCE :: bool
  speech_on :: bool
  ir_on :: "nat set"
  observers :: nat
  tasks :: "pc list"
  trace :: "action list"
  console :: "diag list"
  str_lower :: "unicode \<Rightarrow> unicode"

definition emit :: "action \<Rightarrow> state \<Rightarrow> state" where
  "emit a s = s\<lparr>trace := trace s @ [a]\<rparr>"

definition say :: "diag \<Rightarrow> state \<Rightarrow> state" where
  "say d s = s\<lparr>console := console s @ [d]\<rparr>"

definition set_stop :: "bool \<Rightarrow> state \<Rightarrow> state" where
  "set_stop b s = emit (SetStop b) (s\<lparr>STOP_MOVE_SEQUENCE := b\<rparr>)"

text \<open>
  \<^verbatim>\<open>observer.start()\<close> and \<^verbatim>\<open>observer.stop()\<close>. A stop of an observer that is not
  started raises: the result is \<open>None\<close>.
\<close>

definition speech_start :: "state \<Rightarrow> state" where
  "speech_start s = emit SpeechStart (s\<lparr>speech_on := True\<rparr>)"

definition speech_stop :: "state \<Rightarrow> state option" where
  "speech_stop s =
     (if speech_on s then Some (emit SpeechStop (s\<lparr>speech_on := False\<rparr>)) else None)"

definition ir_start :: "nat \<Rightarrow> state \<Rightarrow> state" where
  "ir_start obs s = emit (IrStart obs) (s\<lparr>ir_on := insert obs (ir_on s)\<rparr>)"

definition ir_stop :: "nat \<Rightarrow> state \<Rightarrow> state option" where
  "ir_stop obs s =
     (if obs \<in> ir_on s then Some (emit (IrStop obs) (s\<lparr>ir_on := ir_on s - {obs}\<rparr>))
      else None)"

subsection \<open>Text normalisation\<close>

text \<open>
  \<^verbatim>\<open>str(msg.text).strip().lower()\<close>. \<open>is_space\<close> is the whitespace \<^verbatim>\<open>str.strip()\<close>
  removes (all of Unicode). \<open>lower_latin\<close> is \<^verbatim>\<open>str.lower\<close> on a code point below 256:
  \<^verbatim>\<open>A\<close>..\<^verbatim>\<open>Z\<close> and the Latin-1 capitals (192..222 without 215) go 32 up. A text with
  a code point above 255 is lowered by the interpreter's table.
\<close>

definition is_space :: "nat \<Rightarrow> bool" where
  "is_space n =
     (n \<in> {9, 10, 11, 12, 13, 28, 29, 30, 31, 32, 133, 160, 5760, 8232, 8233, 8239, 8287,
           12288}
      \<or> (8192 \<le> n \<and> n \<le> 8202))"

definition strip :: "unicode \<Rightarrow> unicode" where
  "strip xs = rev (dropWhile is_space (rev (dropWhile is_space xs)))"

definition lower_latin :: "nat \<Rightarrow> nat" where
  "lower_latin n =
     (if (65 \<le> n \<and> n \<le> 90) \<or> (192 \<le> n \<and> n \<le> 222 \<and> n \<noteq> 215) then n + 32 else n)"

definition lower :: "(unicode \<Rightarrow> unicode) \<Rightarrow> unicode \<Rightarrow> unicode" where
  "lower table xs = (if list_all (\<lambda>n. n < 256) xs then map lower_latin xs else table xs)"

subsection \<open>The coroutines\<close>

text \<open>
  \<^verbatim>\<open>play_tts\<close> up to its \<^verbatim>\<open>await block.execute()\<close>, and from there to its end.
\<close>

definition play_tts :: "string \<Rightarrow> state \<Rightarrow> state" where
  "play_tts phrase s = emit (Tts phrase) s"

definition play_tts_done :: "api_result \<Rightarrow> state \<Rightarrow> state" where
  "play_tts_done r s = say (TtsResponse r) s"

text \<open>
  \<open>succeeded\<close> is the condition of line 38. \<^verbatim>\<open>move_robot\<close> up to its
  \<^verbatim>\<open>await block.execute()\<close>; then from the result to either
  \<^verbatim>\<open>await asyncio.sleep(1)\<close> (first component \<open>True\<close>: after the sleep it returns
  \<^verbatim>\<open>True\<close>) or \<^verbatim>\<open>return False\<close>.
\<close>

definition succeeded :: "api_result \<Rightarrow> bool" where
  "succeeded r = (rt_success r \<and> is_success r)"

definition move_robot :: "MoveRobotDirection \<Rightarrow> nat \<Rightarrow> state \<Rightarrow> state" where
  "move_robot direction n s = emit (Move direction n) s"

definition move_robot_result :: "api_result \<Rightarrow> state \<Rightarrow> bool \<times> state" where
  "move_robot_result r s =
     (let s1 = say (MoveResult r) s
      in if succeeded r then (True, emit (Sleep 1) s1) else (False, s1))"

fun site_args :: "call_site \<Rightarrow> MoveRobotDirection \<times> nat" where
  "site_args L49 = (FORWARD, 9)"
| "site_args L50 = (BACKWARD, 4)"
| "site_args L51 = (RIGHTWARD, 6)"
| "site_args L52 = (FORWARD, 5)"

definition call_move :: "call_site \<Rightarrow> state \<Rightarrow> pc \<times> state" where
  "call_move c s = (Seq_move c, move_robot (fst (site_args c)) (snd (site_args c)) s)"

text \<open>
  \<^verbatim>\<open>move_sequence\<close> from its entry to the first \<^verbatim>\<open>await\<close>, and its continuation
  once the \<^verbatim>\<open>move_robot\<close> called at a site has returned \<open>b\<close>. The conditions are those
  of lines 49 to 52: line 50 does not read the flag.
\<close>

definition move_sequence :: "state \<Rightarrow> pc \<times> state" where
  "move_sequence s = call_move L49 (set_stop False s)"

fun move_sequence_cont :: "call_site \<Rightarrow> bool \<Rightarrow> state \<Rightarrow> pc \<times> state" where
  "move_sequence_cont L49 b s =
     (if b \<and> \<not> STOP_MOVE_SEQUENCE s then call_move L50 s else (Done, s))"
| "move_sequence_cont L50 b s =
     (if b then call_move L51 s else (Done, s))"
| "move_sequence_cont L51 b s =
     (if b \<and> \<not> STOP_MOVE_SEQUENCE s then call_move L52 s else (Done, s))"
| "move_sequence_cont L52 b s =
     (if b \<and> \<not> STOP_MOVE_SEQUENCE s
      then (Seq_tts, play_tts ''Finished cleaning, returning to home position'' s)
      else (Done, s))"

text \<open>
  \<^verbatim>\<open>observe_infrared_distance\<close> up to its \<^verbatim>\<open>await asyncio.sleep(0)\<close>: a new observer,
  started. \<^verbatim>\<open>observe_speech\<close> has no \<^verbatim>\<open>await\<close>.
\<close>

definition observe_infrared_distance :: "state \<Rightarrow> state" where
  "observe_infrared_distance s =
     (let obs = observers s
      in emit (Sleep 0) (ir_start obs (s\<lparr>observers := Suc obs\<rparr>)))"

definition observe_speech :: "state \<Rightarrow> state" where
  "observe_speech s = speech_start s"

text \<open>
  \<open>resume p r s\<close> runs the task suspended at \<open>p\<close>, whose awaited operation completed
  with \<open>r\<close>, to its next suspension point, or to its end: \<open>Done\<close>, or \<open>Raised\<close> where a
  call raises (lines 66, 99, 106 and 140). It is \<open>None\<close> when \<open>r\<close> is not a value that
  operation returns.
\<close>

fun resume :: "pc \<Rightarrow> reply \<Rightarrow> state \<Rightarrow> (pc \<times> state) option" where
  "resume Main_start r s =
     (case r of
        Ack \<Rightarrow> Some (Main_discover, emit (Discover ''00345'' 10) s)
      | _ \<Rightarrow> None)"
| "resume Main_discover r s =
     (case r of
        Found device \<Rightarrow>
          (let s1 = say (DeviceFound device) s
           in case device of
                None \<Rightarrow> Some (Done, s1)
              | Some dev \<Rightarrow> Some (Main_connect, emit (Connect dev) s1))
      | _ \<Rightarrow> None)"
| "resume Main_connect r s =
     (case r of
        Conn b \<Rightarrow>
          (if b then Some (Main_enter, emit EnterProgram s)
           else Some (Raised, emit (Raising EnterProgram) s))
      | _ \<Rightarrow> None)"
| "resume Main_enter r s =
     (case r of
        Ack \<Rightarrow> Some (Main_idle, emit (Sleep 1) (observe_speech s))
      | _ \<Rightarrow> None)"
| "resume Main_idle r s =
     (case r of
        Ack \<Rightarrow> Some (Main_idle, emit (Sleep 1) s)
      | _ \<Rightarrow> None)"
| "resume (Speech_start utterance) r s =
     (case r of
        Ack \<Rightarrow>
          (let recognized_text = lower (str_lower s) (strip utterance);
               s1 = say (RawSpeech recognized_text) s
           in if recognized_text = cps ''hello.''
              then Some (Speech_hello_tts,
                         play_tts ''Starting cleaning process'' (say RecognizedStart s1))
              else if recognized_text = cps ''finish.''
              then Some (Speech_finish_tts,
                         play_tts ''Shutting down.'' (say RecognizedFinish s1))
              else Some (Done, s1))
      | _ \<Rightarrow> None)"
| "resume Speech_hello_tts r s =
     (case r of
        Api res \<Rightarrow>
          (let s1 = play_tts_done res s
           in case speech_stop s1 of
                None \<Rightarrow> Some (Raised, emit (Raising SpeechStop) s1)
              | Some s2 \<Rightarrow> Some (Speech_hello_yield, observe_infrared_distance s2))
      | _ \<Rightarrow> None)"
| "resume Speech_hello_yield r s =
     (case r of
        Ack \<Rightarrow> Some (move_sequence s)
      | _ \<Rightarrow> None)"
| "resume Speech_finish_tts r s =
     (case r of
        Api res \<Rightarrow>
          (let s1 = play_tts_done res s
           in case speech_stop s1 of
                None \<Rightarrow> Some (Raised, emit (Raising SpeechStop) s1)
              | Some s2 \<Rightarrow> Some (Speech_quit, emit QuitProgram s2))
      | _ \<Rightarrow> None)"
| "resume Speech_quit r s =
     (case r of
        Ack \<Rightarrow> Some (Speech_release, emit Release s)
      | _ \<Rightarrow> None)"
| "resume Speech_release r s =
     (case r of
        Ack \<Rightarrow> Some (Done, s)
      | _ \<Rightarrow> None)"
| "resume (Ir_start obs distance) r s =
     (case r of
        Ack \<Rightarrow>
          (let s1 = say (Distance distance) s
           in if distance < 150
              then (case ir_stop obs s1 of
                      None \<Rightarrow> Some (Raised, emit (Raising (IrStop obs)) s1)
                    | Some s2 \<Rightarrow>
                        Some (Ir_tts obs,
                              play_tts ''Obstacle detected, stopping movement.''
                                (set_stop True s2)))
              else Some (Done, s1))
      | _ \<Rightarrow> None)"
| "resume (Ir_tts obs) r s =
     (case r of
        Api res \<Rightarrow> Some (Ir_cool1 obs, emit (Sleep 2) (play_tts_done res s))
      | _ \<Rightarrow> None)"
| "resume (Ir_cool1 obs) r s =
     (case r of
        Ack \<Rightarrow> Some (Ir_retreat obs, move_robot BACKWARD 5 s)
      | _ \<Rightarrow> None)"
| "resume (Ir_retreat obs) r s =
     (case r of
        Api res \<Rightarrow>
          (case move_robot_result res s of
             (True, s1) \<Rightarrow> Some (Ir_retreat_settle obs, s1)
           | (False, s1) \<Rightarrow> Some (Ir_cool2 obs, emit (Sleep 2) s1))
      | _ \<Rightarrow> None)"
| "resume (Ir_retreat_settle obs) r s =
     (case r of
        Ack \<Rightarrow> Some (Ir_cool2 obs, emit (Sleep 2) s)
      | _ \<Rightarrow> None)"
| "resume (Ir_cool2 obs) r s =
     (case r of
        Ack \<Rightarrow> Some (move_sequence (ir_start obs (set_stop False s)))
      | _ \<Rightarrow> None)"
| "resume (Seq_move c) r s =
     (case r of
        Api res \<Rightarrow>
          (case move_robot_result res s of
             (True, s1) \<Rightarrow> Some (Seq_settle c, s1)
           | (False, s1) \<Rightarrow> Some (move_sequence_cont c False s1))
      | _ \<Rightarrow> None)"
| "resume (Seq_settle c) r s =
     (case r of
        Ack \<Rightarrow> Some (move_sequence_cont c True s)
      | _ \<Rightarrow> None)"
| "resume Seq_tts r s =
     (case r of
        Api res \<Rightarrow> Some (Done, play_tts_done res s)
      | _ \<Rightarrow> None)"
| "resume Done r s = None"
| "resume Raised r s = None"

subsection \<open>One task, with the other tasks as its environment\<close>

text \<open>
  \<open>drive p rs s\<close> resumes one task once for each element of \<open>rs\<close>. An element is the
  reply the task is resumed with, and the value of \<open>STOP_MOVE_SEQUENCE\<close> it finds then:
  the last value written, by any task, while it was suspended.
\<close>

fun drive :: "pc \<Rightarrow> (bool \<times> reply) list \<Rightarrow> state \<Rightarrow> (pc \<times> state) option" where
  "drive p [] s = Some (p, s)"
| "drive p ((b, r) # rs) s =
     (case resume p r (s\<lparr>STOP_MOVE_SEQUENCE := b\<rparr>) of
        None \<Rightarrow> None
      | Some (p', s') \<Rightarrow> drive p' rs s')"

subsection \<open>The event loop\<close>

text \<open>
  An event is chosen by the environment: the speech stream calls the handler set at
  line 110 with a text, the infrared stream calls the handler an observer was given at
  line 83 with a distance (both only make a task, which runs later), or the operation a
  task awaits completes. A stream delivers only while its observer is started. When
  the main coroutine has ended, \<^verbatim>\<open>asyncio.run\<close> ends and nothing runs any more.
\<close>

datatype event = Utter unicode | Reading nat int | Run nat reply

definition spawn :: "pc \<Rightarrow> state \<Rightarrow> state" where
  "spawn p s = s\<lparr>tasks := tasks s @ [p]\<rparr>"

definition exited :: "state \<Rightarrow> bool" where
  "exited s = (case tasks s of [] \<Rightarrow> True | p # ps \<Rightarrow> p = Done \<or> p = Raised)"

fun step :: "event \<Rightarrow> state \<Rightarrow> state option" where
  "step (Utter utterance) s =
     (if \<not> exited s \<and> speech_on s then Some (spawn (Speech_start utterance) s) else None)"
| "step (Reading obs distance) s =
     (if \<not> exited s \<and> obs \<in> ir_on s then Some (spawn (Ir_start obs distance) s) else None)"
| "step (Run tid r) s =
     (if \<not> exited s \<and> tid < length (tasks s)
      then (case resume (tasks s ! tid) r s of
              None \<Rightarrow> None
            | Some (p, s1) \<Rightarrow> Some (s1\<lparr>tasks := (tasks s1)[tid := p]\<rparr>))
      else None)"

fun run :: "event list \<Rightarrow> state \<Rightarrow> state option" where
  "run [] s = Some s"
| "run (e # es) s = (case step e s of None \<Rightarrow> None | Some s1 \<Rightarrow> run es s1)"

text \<open>
  \<^verbatim>\<open>asyncio.run(main())\<close>, on an interpreter with the given table: the flag is
  \<^verbatim>\<open>False\<close> (line 18), the only task is main.
\<close>

definition init :: "(unicode \<Rightarrow> unicode) \<Rightarrow> state" where
  "init table =
     \<lparr>STOP_MOVE_SEQUENCE = False, speech_on = False, ir_on = {}, observers = 0,
      tasks = [Main_start], trace = [], console = [], str_lower = table\<rparr>"

subsection \<open>Notions used in the properties\<close>

text \<open>The actuator commands of a trace.\<close>

fun is_move :: "action \<Rightarrow> bool" where
  "is_move (Move direction n) = True"
| "is_move a = False"


text \<open>
  The plan with its closing announcement, and what a trace has of it: its actuator
  commands (all of them, a retreat too) and closing announcements.
\<close>

definition plan_actions :: "action list" where
  "plan_actions =
     [Move FORWARD 9, Move BACKWARD 4, Move RIGHTWARD 6, Move FORWARD 5,
      Tts ''Finished cleaning, returning to home position'']"

definition plan_part :: "action list \<Rightarrow> action list" where
  "plan_part tr =
     filter (\<lambda>a. is_move a \<or> a = Tts ''Finished cleaning, returning to home position'') tr"

text \<open>
  A task that is in a movement sequence it entered from the start handler, with the
  number of actions of \<open>plan_actions\<close> it has issued; \<open>stages\<close> lists these numbers for
  a task table.
\<close>

fun stage :: "pc \<Rightarrow> nat list" where
  "stage Speech_hello_yield = [0]"
| "stage (Seq_move L49) = [1]"
| "stage (Seq_settle L49) = [1]"
| "stage (Seq_move L50) = [2]"
| "stage (Seq_settle L50) = [2]"
| "stage (Seq_move L51) = [3]"
| "stage (Seq_settle L51) = [3]"
| "stage (Seq_move L52) = [4]"
| "stage (Seq_settle L52) = [4]"
| "stage Seq_tts = [5]"
| "stage p = []"

definition stages :: "pc list \<Rightarrow> nat list" where
  "stages ts = concat (map stage ts)"

text \<open>
  A reading that is not below the threshold of line 65. An acknowledgement that is not
  a failed actuator call. \<open>smooth es s\<close>: in the run of \<open>es\<close> from \<open>s\<close> no reading is
  below the threshold and every actuator call succeeds.
\<close>

fun far :: "event \<Rightarrow> bool" where
  "far (Reading obs distance) = (150 \<le> distance)"
| "far e = True"

fun awaits_move :: "pc \<Rightarrow> bool" where
  "awaits_move (Seq_move c) = True"
| "awaits_move (Ir_retreat obs) = True"
| "awaits_move p = False"

fun actuator_ok :: "event \<Rightarrow> state \<Rightarrow> bool" where
  "actuator_ok (Run tid (Api res)) s =
     (if tid < length (tasks s) \<and> awaits_move (tasks s ! tid) then succeeded res else True)"
| "actuator_ok e s = True"

fun smooth :: "event list \<Rightarrow> state \<Rightarrow> bool" where
  "smooth [] s = True"
| "smooth (e # es) s =
     (far e \<and> actuator_ok e s \<and> (case step e s of None \<Rightarrow> True | Some s1 \<Rightarrow> smooth es s1))"

text \<open>
  The invariant of smooth runs. A handler task is \<open>tame\<close> when it is not in a recovery
  and not the unstarted handler of a reading below the threshold. A state is \<open>orderly\<close>
  when the flag is clear and either main is still starting up, alone, or main idles,
  the other tasks are tame, nothing of the plan has been issued while the speech
  observer is started, and at most one task is in the sequence, having issued what
  its stage says.
\<close>

fun tame :: "pc \<Rightarrow> bool" where
  "tame (Speech_start utterance) = True"
| "tame Speech_hello_tts = True"
| "tame Speech_hello_yield = True"
| "tame Speech_finish_tts = True"
| "tame Speech_quit = True"
| "tame Speech_release = True"
| "tame (Ir_start obs distance) = (150 \<le> distance)"
| "tame (Seq_move c) = True"
| "tame (Seq_settle c) = True"
| "tame Seq_tts = True"
| "tame Done = True"
| "tame Raised = True"
| "tame p = False"

fun starting :: "pc \<Rightarrow> bool" where
  "starting Main_start = True"
| "starting Main_discover = True"
| "starting Main_connect = True"
| "starting Main_enter = True"
| "starting Done = True"
| "starting Raised = True"
| "starting p = False"

definition progress :: "state \<Rightarrow> bool" where
  "progress s =
     (stages (tasks s) = [] \<and> (plan_part (trace s) = [] \<or> plan_part (trace s) = plan_actions)
      \<or> (\<exists>k. stages (tasks s) = [k] \<and> plan_part (trace s) = take k plan_actions))"

definition orderly :: "state \<Rightarrow> bool" where
  "orderly s =
     (\<not> STOP_MOVE_SEQUENCE s \<and>
      (case tasks s of
         [] \<Rightarrow> False
       | m # ts \<Rightarrow>
           (starting m \<and> ts = [] \<and> \<not> speech_on s \<and> ir_on s = {} \<and> plan_part (trace s) = [])
           \<or> (m = Main_idle \<and> list_all tame ts
               \<and> (speech_on s \<longrightarrow> stages ts = [] \<and> plan_part (trace s) = [])
               \<and> progress s)))"

text \<open>
  Replaying a trace against the infrared observers, from the set of started observers
  and whether a stop awaits its notification. The notification of a trip is the
  assignment \<^verbatim>\<open>STOP_MOVE_SEQUENCE = True\<close> of line 67. The replay fails (\<open>None\<close>) when
  a stop that went through finds its observer not started, when a notification does
  not directly follow such a stop, or when such a stop is not directly followed by its
  notification.
\<close>

fun replay :: "nat set \<times> bool \<Rightarrow> action list \<Rightarrow> (nat set \<times> bool) option" where
  "replay st [] = Some st"
| "replay st (a # tr) =
     (if a = SetStop True
      then (if snd st then replay (fst st, False) tr else None)
      else if snd st then None
      else (case a of
              IrStart obs \<Rightarrow> replay (insert obs (fst st), False) tr
            | IrStop obs \<Rightarrow>
                (if obs \<in> fst st then replay (fst st - {obs}, True) tr else None)
            | _ \<Rightarrow> replay st tr))"



text \<open>
  Main has got a device: it awaits \<^verbatim>\<open>Mini.connect\<close> or \<^verbatim>\<open>Mini.enter_program\<close>, or idles.
\<close>

definition main_past :: "state \<Rightarrow> bool" where
  "main_past s =
     (case tasks s of
        [] \<Rightarrow> False
      | p # ps \<Rightarrow> p = Main_connect \<or> p = Main_enter \<or> p = Main_idle)"

text \<open>
  For the concrete runs below: a device, a successful and a failed result, and a table
  that is never consulted, since their utterances have no code point above 255.
\<close>

definition robot :: WiFiDevice where
  "robot = WiFiDevice ''00345''"

definition ok :: api_result where
  "ok = \<lparr>rt_success = True, is_success = True\<rparr>"

definition failed :: api_result where
  "failed = \<lparr>rt_success = True, is_success = False\<rparr>"

definition latin :: "unicode \<Rightarrow> unicode" where
  "latin xs = xs"

text \<open>
  The events from \<^verbatim>\<open>asyncio.run(main())\<close> to main's idle loop with the speech
  observer started, and from there through a recognised \<^verbatim>\<open>hello.\<close> (task 1) to the
  first step of the movement sequence in flight, with infrared observer 0 started.
\<close>

definition boot :: "event list" where
  "boot = [Run 0 Ack, Run 0 (Found (Some robot)), Run 0 (Conn True), Run 0 Ack]"

definition start_task :: "event list" where
  "start_task = [Utter (cps ''hello.''), Run 1 Ack, Run 1 (Api ok), Run 1 Ack]"

text \<open>
  Three states of the program: \<open>listening\<close>, reached by \<open>boot\<close>; \<open>cruising\<close>, reached
  by \<open>boot @ start_task\<close>; and \<open>shutting_down\<close>, reached when \<^verbatim>\<open>finish.\<close> is the first
  utterance and its handler (task 1) has stopped the speech observer and awaits
  \<^verbatim>\<open>Mini.quit_program()\<close>.
\<close>

definition listening :: state where
  "listening =
     \<lparr>STOP_MOVE_SEQUENCE = False, speech_on = True, ir_on = {}, observers = 0,
      tasks = [Main_idle],
      trace = [Discover ''00345'' 10, Connect robot, EnterProgram, SpeechStart, Sleep 1],
      console = [DeviceFound (Some robot)], str_lower = latin\<rparr>"

definition cruising :: state where
  "cruising =
     \<lparr>STOP_MOVE_SEQUENCE = False, speech_on = False, ir_on = {0}, observers = 1,
      tasks = [Main_idle, Seq_move L49],
      trace = [Discover ''00345'' 10, Connect robot, EnterProgram, SpeechStart, Sleep 1,
               Tts ''Starting cleaning process'', SpeechStop, IrStart 0, Sleep 0,
               SetStop False, Move FORWARD 9],
      console = [DeviceFound (Some robot), RawSpeech (cps ''hello.''), RecognizedStart,
                 TtsResponse ok],
      str_lower = latin\<rparr>"

definition shutting_down :: state where
  "shutting_down =
     \<lparr>STOP_MOVE_SEQUENCE = False, speech_on = False, ir_on = {}, observers = 0,
      tasks = [Main_idle, Speech_quit],
      trace = [Discover ''00345'' 10, Connect robot, EnterProgram, SpeechStart, Sleep 1,
               Tts ''Shutting down.'', SpeechStop, QuitProgram],
      console = [DeviceFound (Some robot), RawSpeech (cps ''finish.''), RecognizedFinish,
                 TtsResponse ok],
      str_lower = latin\<rparr>"

section \<open>Properties\<close>

lemmas prims = emit_def say_def set_stop_def speech_start_def speech_stop_def ir_start_def
  ir_stop_def play_tts_def play_tts_done_def move_robot_def move_robot_result_def
  call_move_def move_sequence_def observe_infrared_distance_def observe_speech_def

lemmas norm = lower_def strip_def is_space_def lower_latin_def cps_def

lemmas loop = init_def exited_def spawn_def boot_def start_task_def robot_def ok_def
  failed_def succeeded_def

subsection \<open>The named states are reached\<close>

lemma listening_reached: "run boot (init latin) = Some listening"
  by (simp add: prims loop Let_def listening_def)

lemma cruising_reached: "run (boot @ start_task) (init latin) = Some cruising"
  by (simp add: prims loop norm Let_def cruising_def)

lemma shutting_down_reached:
  "run (boot @ [Utter (cps ''finish.''), Run 1 Ack, Run 1 (Api ok)]) (init latin) =
     Some shutting_down"
  by (simp add: prims loop norm Let_def shutting_down_def)

subsection \<open>What a resumed task leaves alone\<close>

lemma move_sequence_cont_tasks:
  "move_sequence_cont c b s = (p, s1) \<Longrightarrow> tasks s1 = tasks s \<and> str_lower s1 = str_lower s"
  by (cases c) (auto simp: prims split: if_splits)

lemma resume_tasks:
  "resume p r s = Some (p1, s1) \<Longrightarrow> tasks s1 = tasks s \<and> str_lower s1 = str_lower s"
  by (cases p; cases r)
     (auto simp: prims Let_def split: if_splits option.splits dest: move_sequence_cont_tasks)

lemma list_all_update: "list_all P xs \<Longrightarrow> P x \<Longrightarrow> list_all P (xs[i := x])"
  by (induction xs arbitrary: i) (auto split: nat.splits)

lemma exited_step: "exited s \<Longrightarrow> step e s = None"
  by (cases e) simp_all

lemma exited_run: "exited s \<Longrightarrow> run es s = Some s1 \<Longrightarrow> es = []"
  by (cases es) (simp_all add: exited_step)

subsection \<open>The movement sequence\<close>

text \<open>
  C9. Every call of \<^verbatim>\<open>move_sequence\<close> first writes \<^verbatim>\<open>False\<close> to the flag and then
  issues \<^verbatim>\<open>Forward 9\<close>, whatever the flag was before the call.
\<close>

theorem move_sequence_resets_flag:
  "move_sequence s =
     (Seq_move L49,
      s\<lparr>STOP_MOVE_SEQUENCE := False, trace := trace s @ [SetStop False, Move FORWARD 9]\<rparr>)"
  by (simp add: move_sequence_def call_move_def move_robot_def set_stop_def emit_def)

text \<open>
  Where the sequence reads the flag: when the settle delay of a step is over and the
  flag is set, the sequence ends after steps 1, 3 and 4 (lines 49, 51, 52), but goes on
  to \<^verbatim>\<open>Rightward 6\<close> after step 2 (line 50).
\<close>

lemma flag_read_after_settle:
  "c \<noteq> L50 \<Longrightarrow>
     drive (Seq_settle c) [(True, Ack)] s = Some (Done, s\<lparr>STOP_MOVE_SEQUENCE := True\<rparr>)"
  by (cases c) simp_all

lemma flag_not_read_after_step_two:
  "drive (Seq_settle L50) [(True, Ack)] s =
     Some (Seq_move L51,
           s\<lparr>STOP_MOVE_SEQUENCE := True, trace := trace s @ [Move RIGHTWARD 6]\<rparr>)"
  by (simp add: prims)

text \<open>
  C1 (the code departs from it). The claim: the interrupt is checked before each step,
  and an interrupt asserted while step 2 (\<^verbatim>\<open>Backward 4\<close>) is in flight keeps step 3
  (\<^verbatim>\<open>Rightward 6\<close>) from being issued. The run below: the program starts, \<^verbatim>\<open>hello.\<close>
  is recognised, step 1 completes, and while step 2 is in flight a reading of 120
  arrives and its handler sets the flag. When step 2 and its settle delay are over the
  sequence issues \<^verbatim>\<open>Rightward 6\<close> with the flag set: line 50 lacks the
  \<^verbatim>\<open>and not STOP_MOVE_SEQUENCE\<close> of lines 49, 51 and 52.
\<close>

theorem interrupt_in_step_two_is_missed:
  "run (boot @ start_task @
        [Run 1 (Api ok), Run 1 Ack, Reading 0 120, Run 2 Ack, Run 1 (Api ok), Run 1 Ack])
       (init latin) =
     Some (cruising\<lparr>STOP_MOVE_SEQUENCE := True, ir_on := {},
             tasks := [Main_idle, Seq_move L51, Ir_tts 0],
             trace := trace cruising @
               [Sleep 1, Move BACKWARD 4, IrStop 0, SetStop True,
                Tts ''Obstacle detected, stopping movement.'', Sleep 1, Move RIGHTWARD 6],
             console := console cruising @ [MoveResult ok, Distance 120, MoveResult ok]\<rparr>)"
  by (simp add: prims loop norm Let_def cruising_def)

text \<open>
  C3 (corrected). The claim: a non-success result at step \<open>i\<close> produces a
  \<^verbatim>\<open>Failed(i)\<close> report and an observable failure. In the run below step 2 fails; the
  task ends with no action after the failed command, and the only output is the
  \<^verbatim>\<open>Move result\<close> log line that every move writes.
\<close>

theorem failed_step_is_not_reported:
  "run (boot @ start_task @ [Run 1 (Api ok), Run 1 Ack, Run 1 (Api failed)]) (init latin) =
     Some (cruising\<lparr>tasks := [Main_idle, Done],
             trace := trace cruising @ [Sleep 1, Move BACKWARD 4],
             console := console cruising @ [MoveResult ok, MoveResult failed]\<rparr>)"
  by (simp add: prims loop norm Let_def cruising_def)

text \<open>
  C3 as amended. At each of the four steps, when the actuator call returns a
  non-success result the sequence ends at once: it performs no further action (no step,
  no announcement, no report), and writes only the \<^verbatim>\<open>Move result\<close> log line.
\<close>

theorem failed_step_ends_silently:
  assumes "\<not> succeeded r"
  shows "drive (Seq_move c) [(b, Api r)] s =
           Some (Done, s\<lparr>STOP_MOVE_SEQUENCE := b, console := console s @ [MoveResult r]\<rparr>)"
  using assms by (cases c) (simp_all add: prims)

theorem failed_step_ends_silently_witness:
  "\<not> succeeded failed \<and>
   drive (Seq_move L49) [(False, Api failed)] cruising =
     Some (Done, cruising\<lparr>console := console cruising @ [MoveResult failed]\<rparr>)"
proof -
  have h: "\<not> succeeded failed" by (simp add: succeeded_def failed_def)
  from failed_step_ends_silently [OF h, where c = L49 and b = False and s = cruising] h
  show ?thesis by (simp add: cruising_def)
qed

subsection \<open>Runs with no obstacle and no failed step\<close>

lemma stage_shape: "stage p = [] \<or> (\<exists>k. stage p = [k])"
  by (cases p rule: stage.cases) simp_all

lemma stages_simps [simp]:
  "stages [] = []" "stages (p # ps) = stage p @ stages ps"
  "stages (xs @ ys) = stages xs @ stages ys"
  by (simp_all add: stages_def)

lemma stages_split:
  "n < length ts \<Longrightarrow> stages ts = stages (take n ts) @ stage (ts ! n) @ stages (drop (Suc n) ts)"
  using id_take_nth_drop [of n ts] stages_simps(3) [of "take n ts" "ts ! n # drop (Suc n) ts"]
  by simp

lemma stages_update:
  "n < length ts \<Longrightarrow>
     stages (ts[n := p]) = stages (take n ts) @ stage p @ stages (drop (Suc n) ts)"
  by (simp add: upd_conv_take_nth_drop)

lemma move_sequence_cont_tame:
  assumes "move_sequence_cont c True s = (p1, s1)" and "\<not> STOP_MOVE_SEQUENCE s"
    and "stage (Seq_settle c) = [k]" and "plan_part (trace s) = take k plan_actions"
  shows "tame p1 \<and> \<not> STOP_MOVE_SEQUENCE s1 \<and> speech_on s1 = speech_on s
         \<and> (\<exists>k1. stage p1 = [k1] \<and> plan_part (trace s1) = take k1 plan_actions)"
  using assms
  by (cases c) (auto simp: prims plan_part_def plan_actions_def)

lemma resume_tame:
  assumes "tame p" and "\<not> STOP_MOVE_SEQUENCE s" and "resume p r s = Some (p1, s1)"
    and "\<And>res. awaits_move p \<Longrightarrow> r = Api res \<Longrightarrow> succeeded res"
  shows "tame p1" and "\<not> STOP_MOVE_SEQUENCE s1" and "speech_on s1 \<Longrightarrow> speech_on s"
    and "stage p = [] \<Longrightarrow> plan_part (trace s1) = plan_part (trace s)
           \<and> (stage p1 = [] \<or> stage p1 = [0] \<and> speech_on s \<and> \<not> speech_on s1)"
    and "stage p = [k] \<Longrightarrow> plan_part (trace s) = take k plan_actions \<Longrightarrow>
           stage p1 = [] \<and> plan_part (trace s1) = plan_actions
           \<or> (\<exists>k1. stage p1 = [k1] \<and> plan_part (trace s1) = take k1 plan_actions)"
proof -
  have "tame p1 \<and> \<not> STOP_MOVE_SEQUENCE s1 \<and> (speech_on s1 \<longrightarrow> speech_on s)
    \<and> (stage p = [] \<longrightarrow> plan_part (trace s1) = plan_part (trace s)
           \<and> (stage p1 = [] \<or> stage p1 = [0] \<and> speech_on s \<and> \<not> speech_on s1))
    \<and> (stage p = [k] \<longrightarrow> plan_part (trace s) = take k plan_actions \<longrightarrow>
           stage p1 = [] \<and> plan_part (trace s1) = plan_actions
           \<or> (\<exists>k1. stage p1 = [k1] \<and> plan_part (trace s1) = take k1 plan_actions))"
  proof (cases p)
    case (Seq_move c)
    with assms obtain res where r: "r = Api res" and ok: "succeeded res"
      by (cases r) auto
    with Seq_move assms(2,3) show ?thesis
      by (cases c) (auto simp: prims Let_def plan_part_def)
  next
    case (Seq_settle c)
    with assms(3) have r: "r = Ack" and m: "move_sequence_cont c True s = (p1, s1)"
      by (cases r; simp)+
    obtain j where j: "stage (Seq_settle c) = [j]" by (cases c) simp_all
    show ?thesis
    proof (cases "k = j \<and> plan_part (trace s) = take k plan_actions")
      case True
      with move_sequence_cont_tame [OF m assms(2), of k] j Seq_settle
      show ?thesis by auto
    next
      case False
      from m assms(2) have "tame p1 \<and> \<not> STOP_MOVE_SEQUENCE s1 \<and> speech_on s1 = speech_on s"
        by (cases c) (auto simp: prims)
      with False j Seq_settle show ?thesis by auto
    qed
  qed (use assms(1,2,3) in \<open>cases r;
        auto simp: prims Let_def plan_part_def plan_actions_def
             split: if_splits option.splits\<close>)+
  then show "tame p1" and "\<not> STOP_MOVE_SEQUENCE s1" and "speech_on s1 \<Longrightarrow> speech_on s"
    and "stage p = [] \<Longrightarrow> plan_part (trace s1) = plan_part (trace s)
           \<and> (stage p1 = [] \<or> stage p1 = [0] \<and> speech_on s \<and> \<not> speech_on s1)"
    and "stage p = [k] \<Longrightarrow> plan_part (trace s) = take k plan_actions \<Longrightarrow>
           stage p1 = [] \<and> plan_part (trace s1) = plan_actions
           \<or> (\<exists>k1. stage p1 = [k1] \<and> plan_part (trace s1) = take k1 plan_actions)"
    by simp_all
qed


lemma one_stage:
  assumes "xs @ st @ ys = [k]" and "st = [] \<or> (\<exists>j. st = [j])"
  shows "st = [k] \<and> xs = [] \<and> ys = [] \<or> st = [] \<and> xs @ ys = [k]"
  using assms by (cases xs; cases st) auto

lemma orderly_step:
  assumes ord: "orderly s" and far: "far e" and act: "actuator_ok e s"
    and st: "step e s = Some s1"
  shows "orderly s1"
proof -
  from ord obtain m ts where tasks: "tasks s = m # ts" and clear: "\<not> STOP_MOVE_SEQUENCE s"
    and phase: "starting m \<and> ts = [] \<and> \<not> speech_on s \<and> ir_on s = {} \<and> plan_part (trace s) = []
      \<or> m = Main_idle \<and> list_all tame ts
         \<and> (speech_on s \<longrightarrow> stages ts = [] \<and> plan_part (trace s) = []) \<and> progress s"
    by (auto simp: orderly_def split: list.splits)
  from phase show ?thesis
  proof
    assume boot: "starting m \<and> ts = [] \<and> \<not> speech_on s \<and> ir_on s = {}
      \<and> plan_part (trace s) = []"
    with st tasks obtain r where e: "e = Run 0 r"
      by (cases e) (auto split: if_splits)
    from st e tasks obtain p s2 where res: "resume m r s = Some (p, s2)"
      and s1: "s1 = s2\<lparr>tasks := (tasks s2)[0 := p]\<rparr>"
      by (auto split: if_splits option.splits)
    from res boot clear tasks s1 show ?thesis
      by (cases m; cases r)
         (auto simp: orderly_def progress_def prims plan_part_def Let_def
               split: if_splits option.splits)
  next
    assume serve: "m = Main_idle \<and> list_all tame ts
         \<and> (speech_on s \<longrightarrow> stages ts = [] \<and> plan_part (trace s) = []) \<and> progress s"
    then have m: "m = Main_idle" and tame: "list_all tame ts"
      and listen: "speech_on s \<Longrightarrow> stages ts = [] \<and> plan_part (trace s) = []"
      and prog: "stages ts = [] \<and> (plan_part (trace s) = [] \<or> plan_part (trace s) = plan_actions)
                 \<or> (\<exists>k. stages ts = [k] \<and> plan_part (trace s) = take k plan_actions)"
      using tasks by (auto simp: progress_def)
    show ?thesis
    proof (cases e)
      case (Utter u)
      with st have "s1 = spawn (Speech_start u) s" by (auto split: if_splits)
      with clear tasks m tame listen prog show ?thesis
        by (auto simp: orderly_def progress_def spawn_def)
    next
      case (Reading obs d)
      with st have "s1 = spawn (Ir_start obs d) s" by (auto split: if_splits)
      with Reading far clear tasks m tame listen prog show ?thesis
        by (auto simp: orderly_def progress_def spawn_def)
    next
      case (Run tid r)
      show ?thesis
      proof (cases tid)
        case 0
        with Run st tasks m have "r = Ack" and "s1 = (emit (Sleep 1) s)\<lparr>tasks := Main_idle # ts\<rparr>"
          by (auto simp: prims split: if_splits option.splits reply.splits)
        with clear tasks m tame listen prog show ?thesis
          by (auto simp: orderly_def progress_def prims plan_part_def)
      next
        case (Suc n)
        with Run st tasks obtain p1 s2 where n: "n < length ts"
          and res: "resume (ts ! n) r s = Some (p1, s2)"
          and s1': "s1 = s2\<lparr>tasks := (tasks s2)[Suc n := p1]\<rparr>"
          by (auto split: if_splits option.splits)
        from res have same: "tasks s2 = m # ts" using tasks by (auto dest: resume_tasks)
        with s1' have s1: "s1 = s2\<lparr>tasks := m # ts[n := p1]\<rparr>" by simp
        from tame n have tn: "tame (ts ! n)" by (simp add: list_all_length)
        have hyp: "\<And>res. awaits_move (ts ! n) \<Longrightarrow> r = Api res \<Longrightarrow> succeeded res"
          using act Run Suc tasks n by auto
        have T1: "tame p1"
          by (rule resume_tame(1) [OF tn clear res]) (erule (1) hyp)
        have T2: "\<not> STOP_MOVE_SEQUENCE s2"
          by (rule resume_tame(2) [OF tn clear res]) (erule (1) hyp)
        have T3: "speech_on s2 \<Longrightarrow> speech_on s"
          by (rule resume_tame(3) [OF tn clear res]) (erule (1) hyp)
        have T4: "stage (ts ! n) = [] \<Longrightarrow> plan_part (trace s2) = plan_part (trace s)
           \<and> (stage p1 = [] \<or> stage p1 = [0] \<and> speech_on s \<and> \<not> speech_on s2)"
          by (rule resume_tame(4) [OF tn clear res]) (erule (1) hyp)
        have T5: "stage (ts ! n) = [k] \<Longrightarrow> plan_part (trace s) = take k plan_actions \<Longrightarrow>
           stage p1 = [] \<and> plan_part (trace s2) = plan_actions
           \<or> (\<exists>k1. stage p1 = [k1] \<and> plan_part (trace s2) = take k1 plan_actions)" for k
          by (rule resume_tame(5) [OF tn clear res]) (erule (1) hyp)
        let ?X = "stages (take n ts)" and ?Y = "stages (drop (Suc n) ts)"
        have old: "stages ts = ?X @ stage (ts ! n) @ ?Y" using n by (rule stages_split)
        have new: "stages (ts[n := p1]) = ?X @ stage p1 @ ?Y" using n by (rule stages_update)
        have L: "stages (ts[n := p1]) = [] \<and> plan_part (trace s2) = []" if on: "speech_on s2"
        proof -
          from on have "speech_on s" by (rule T3)
          from listen [OF this] have e: "stages ts = []" and pp: "plan_part (trace s) = []"
            by simp_all
          from e old have parts: "?X = []" "stage (ts ! n) = []" "?Y = []" by simp_all
          from T4 [OF parts(2)] on pp have "stage p1 = []" "plan_part (trace s2) = []"
            by auto
          with new parts show ?thesis by simp
        qed
        have P: "stages (ts[n := p1]) = []
                   \<and> (plan_part (trace s2) = [] \<or> plan_part (trace s2) = plan_actions)
                 \<or> (\<exists>k. stages (ts[n := p1]) = [k]
                         \<and> plan_part (trace s2) = take k plan_actions)"
          using prog
        proof
          assume a: "stages ts = []
            \<and> (plan_part (trace s) = [] \<or> plan_part (trace s) = plan_actions)"
          with old have parts: "?X = []" "stage (ts ! n) = []" "?Y = []" by simp_all
          from T4 [OF parts(2)] have same_pp: "plan_part (trace s2) = plan_part (trace s)"
            and alt: "stage p1 = [] \<or> stage p1 = [0] \<and> speech_on s \<and> \<not> speech_on s2"
            by simp_all
          from alt show ?thesis
          proof
            assume "stage p1 = []"
            with new parts a same_pp show ?thesis by simp
          next
            assume b: "stage p1 = [0] \<and> speech_on s \<and> \<not> speech_on s2"
            with listen have "plan_part (trace s) = []" by simp
            with b new parts same_pp show ?thesis by simp
          qed
        next
          assume "\<exists>k. stages ts = [k] \<and> plan_part (trace s) = take k plan_actions"
          then obtain k where k: "stages ts = [k]"
            and pp: "plan_part (trace s) = take k plan_actions" by auto
          from k old have "?X @ stage (ts ! n) @ ?Y = [k]" by simp
          from one_stage [OF this stage_shape]
          show ?thesis
          proof
            assume c: "stage (ts ! n) = [k] \<and> ?X = [] \<and> ?Y = []"
            from T5 [of k] c pp
            have "stage p1 = [] \<and> plan_part (trace s2) = plan_actions
                  \<or> (\<exists>k1. stage p1 = [k1] \<and> plan_part (trace s2) = take k1 plan_actions)"
              by simp
            with new c show ?thesis by auto
          next
            assume c: "stage (ts ! n) = [] \<and> ?X @ ?Y = [k]"
            then have e: "stage (ts ! n) = []" by simp
            from T4 [OF e] have same_pp: "plan_part (trace s2) = plan_part (trace s)"
              and alt: "stage p1 = [] \<or> stage p1 = [0] \<and> speech_on s \<and> \<not> speech_on s2"
              by simp_all
            from alt have "stage p1 = []"
            proof
              assume "stage p1 = []"
              then show ?thesis .
            next
              assume "stage p1 = [0] \<and> speech_on s \<and> \<not> speech_on s2"
              with listen k show ?thesis by simp
            qed
            with new c same_pp pp show ?thesis by auto
          qed
        qed
        from tame T1 have "list_all tame (ts[n := p1])" by (rule list_all_update)
        with s1 m T2 L P show ?thesis
          by (auto simp: orderly_def progress_def)
      qed
    qed
  qed
qed


lemma orderly_run:
  "orderly s \<Longrightarrow> smooth es s \<Longrightarrow> run es s = Some s1 \<Longrightarrow> orderly s1"
proof (induction es arbitrary: s)
  case Nil
  then show ?case by simp
next
  case (Cons e es)
  from Cons.prems(3) obtain s2 where st: "step e s = Some s2" and rest: "run es s2 = Some s1"
    by (auto split: option.splits)
  from Cons.prems(2) st have e: "far e" "actuator_ok e s" and sm: "smooth es s2"
    by simp_all
  from orderly_step [OF Cons.prems(1) e st] have "orderly s2" .
  from Cons.IH [OF this sm rest] show ?case .
qed

lemma orderly_init: "orderly (init table)"
  by (simp add: orderly_def init_def plan_part_def)

lemma orderly_progress: "orderly s \<Longrightarrow> progress s"
  by (cases "tasks s"; cases "hd (tasks s)")
     (auto simp: orderly_def progress_def)

text \<open>
  C5. In every run of the program in which no reading is below the threshold and every
  actuator call succeeds, the actuator commands and closing announcements issued so
  far are an initial part of the plan \<^verbatim>\<open>Forward 9\<close>, \<^verbatim>\<open>Backward 4\<close>, \<^verbatim>\<open>Rightward 6\<close>,
  \<^verbatim>\<open>Forward 5\<close>, closing announcement: at most one task is in the sequence, and what
  has been issued is what its stage says; when no task is in the sequence, either
  nothing of the plan has been issued or the whole plan has, each step once, in order,
  followed by the one closing announcement.
\<close>

theorem smooth_run_follows_plan:
  assumes "run es (init table) = Some s" and "smooth es (init table)"
  shows "stages (tasks s) = []
           \<and> (plan_part (trace s) = [] \<or> plan_part (trace s) = plan_actions)
         \<or> (\<exists>k. stages (tasks s) = [k] \<and> plan_part (trace s) = take k plan_actions)"
  using orderly_progress [OF orderly_run [OF orderly_init assms(2,1)]]
  by (simp add: progress_def)

theorem smooth_run_follows_plan_witness:
  "run (boot @ start_task @
        [Run 1 (Api ok), Reading 0 300, Run 1 Ack, Run 1 (Api ok), Run 2 Ack, Run 1 Ack,
         Run 1 (Api ok), Run 1 Ack, Run 1 (Api ok), Run 1 Ack, Run 1 (Api failed)])
       (init latin) =
     Some (cruising\<lparr>tasks := [Main_idle, Done, Done],
             trace := trace cruising @
               [Sleep 1, Move BACKWARD 4, Sleep 1, Move RIGHTWARD 6, Sleep 1,
                Move FORWARD 5, Sleep 1,
                Tts ''Finished cleaning, returning to home position''],
             console := console cruising @
               [MoveResult ok, MoveResult ok, Distance 300, MoveResult ok, MoveResult ok,
                TtsResponse failed]\<rparr>)
   \<and> smooth (boot @ start_task @
        [Run 1 (Api ok), Reading 0 300, Run 1 Ack, Run 1 (Api ok), Run 2 Ack, Run 1 Ack,
         Run 1 (Api ok), Run 1 Ack, Run 1 (Api ok), Run 1 Ack, Run 1 (Api failed)])
       (init latin)
   \<and> stages [Main_idle, Done, Done] = []
   \<and> plan_part (trace cruising @
               [Sleep 1, Move BACKWARD 4, Sleep 1, Move RIGHTWARD 6, Sleep 1,
                Move FORWARD 5, Sleep 1,
                Tts ''Finished cleaning, returning to home position'']) = plan_actions"
proof -
  let ?es = "boot @ start_task @
        [Run 1 (Api ok), Reading 0 300, Run 1 Ack, Run 1 (Api ok), Run 2 Ack, Run 1 Ack,
         Run 1 (Api ok), Run 1 Ack, Run 1 (Api ok), Run 1 Ack, Run 1 (Api failed)]"
  let ?F = "cruising\<lparr>tasks := [Main_idle, Done, Done],
             trace := trace cruising @
               [Sleep 1, Move BACKWARD 4, Sleep 1, Move RIGHTWARD 6, Sleep 1,
                Move FORWARD 5, Sleep 1,
                Tts ''Finished cleaning, returning to home position''],
             console := console cruising @
               [MoveResult ok, MoveResult ok, Distance 300, MoveResult ok, MoveResult ok,
                TtsResponse failed]\<rparr>"
  have r: "run ?es (init latin) = Some ?F"
    by (simp add: prims loop norm Let_def cruising_def)
  have sm: "smooth ?es (init latin)"
    by (simp add: prims loop norm Let_def)
  have pp: "plan_part (trace ?F) = plan_actions"
    by (simp add: plan_part_def plan_actions_def cruising_def)
  from smooth_run_follows_plan [OF r sm] pp r sm show ?thesis
    by (simp add: stages_def)
qed

subsection \<open>The obstacle handler\<close>

text \<open>
  C2. A trip: the handler of a reading below 150 runs while its observer is started.
  In its first turn it stops the observer, sets the flag (the interrupt is asserted in
  the state it leaves) and announces. Resumed through its further suspension points,
  whatever the replies and whatever the flag was set to meanwhile, it sleeps 2 s,
  issues the one retreat step \<^verbatim>\<open>Backward 5\<close> (followed by \<^verbatim>\<open>move_robot\<close>'s settle delay
  of 1 s when the retreat succeeded), sleeps 2 s, clears the flag, starts the observer
  again, and calls \<^verbatim>\<open>move_sequence\<close>, which starts the plan at its first step
  \<^verbatim>\<open>Forward 9\<close>.
\<close>

theorem recovery_protocol:
  assumes "distance < 150" and "obs \<in> ir_on s"
  shows "drive (Ir_start obs distance) [(ba, Ack)] s
         = Some (Ir_tts obs,
             s\<lparr>STOP_MOVE_SEQUENCE := True, ir_on := ir_on s - {obs},
               trace := trace s @
                 [IrStop obs, SetStop True, Tts ''Obstacle detected, stopping movement.''],
               console := console s @ [Distance distance]\<rparr>)
       \<and> drive (Ir_start obs distance)
           ([(ba, Ack), (bb, Api r1), (bc, Ack), (bd, Api r2)]
            @ (if succeeded r2 then [(be, Ack)] else []) @ [(bf, Ack)]) s
         = Some (Seq_move L49,
             s\<lparr>STOP_MOVE_SEQUENCE := False,
               trace := trace s @
                 [IrStop obs, SetStop True, Tts ''Obstacle detected, stopping movement.'',
                  Sleep 2, Move BACKWARD 5]
                 @ (if succeeded r2 then [Sleep 1] else [])
                 @ [Sleep 2, SetStop False, IrStart obs, SetStop False, Move FORWARD 9],
               console := console s @ [Distance distance, TtsResponse r1, MoveResult r2]\<rparr>)"
  using assms by (cases "succeeded r2") (simp_all add: prims insert_absorb)

theorem recovery_protocol_witness:
  "(120 :: int) < 150 \<and> 0 \<in> ir_on cruising
   \<and> drive (Ir_start 0 120) [(False, Ack)] cruising
     = Some (Ir_tts 0,
         cruising\<lparr>STOP_MOVE_SEQUENCE := True, ir_on := {},
           trace := trace cruising @
             [IrStop 0, SetStop True, Tts ''Obstacle detected, stopping movement.''],
           console := console cruising @ [Distance 120]\<rparr>)
   \<and> drive (Ir_start 0 120)
       [(False, Ack), (True, Api ok), (True, Ack), (True, Api ok), (True, Ack), (True, Ack)]
       cruising
     = Some (Seq_move L49,
         cruising\<lparr>trace := trace cruising @
             [IrStop 0, SetStop True, Tts ''Obstacle detected, stopping movement.'', Sleep 2,
              Move BACKWARD 5, Sleep 1, Sleep 2, SetStop False, IrStart 0, SetStop False,
              Move FORWARD 9],
           console := console cruising @ [Distance 120, TtsResponse ok, MoveResult ok]\<rparr>)"
proof -
  have h: "(120 :: int) < 150" by simp
  have m: "0 \<in> ir_on cruising" by (simp add: cruising_def)
  from recovery_protocol [OF h m, where ?r1.0 = ok and ?r2.0 = ok
      and ba = False and bb = True and bc = True and bd = True and be = True and bf = True]
  show ?thesis by (simp add: ok_def succeeded_def cruising_def)
qed

text \<open>Each turn of a task keeps the trace replayable.\<close>

lemma replay_append:
  "replay st (tr @ tr') = (case replay st tr of None \<Rightarrow> None | Some st' \<Rightarrow> replay st' tr')"
  by (induction tr arbitrary: st) (simp_all split: action.splits)

lemma move_sequence_cont_replay:
  "move_sequence_cont c b s = (p, s1) \<Longrightarrow> replay ({}, False) (trace s) = Some (ir_on s, False) \<Longrightarrow>
     replay ({}, False) (trace s1) = Some (ir_on s1, False)"
  by (cases c) (auto simp: prims replay_append split: if_splits)

lemma resume_replay:
  "resume p r s = Some (p1, s1) \<Longrightarrow> replay ({}, False) (trace s) = Some (ir_on s, False) \<Longrightarrow>
     replay ({}, False) (trace s1) = Some (ir_on s1, False)"
  by (cases p; cases r)
     (auto simp: prims Let_def replay_append split: if_splits option.splits
           dest: move_sequence_cont_replay)

lemma step_replay:
  assumes "step e s = Some s1" and "replay ({}, False) (trace s) = Some (ir_on s, False)"
  shows "replay ({}, False) (trace s1) = Some (ir_on s1, False)"
proof (cases e)
  case (Utter u)
  with assms show ?thesis by (auto simp: spawn_def split: if_splits)
next
  case (Reading obs d)
  with assms show ?thesis by (auto simp: spawn_def split: if_splits)
next
  case (Run tid r)
  with assms(1) obtain p s2 where res: "resume (tasks s ! tid) r s = Some (p, s2)"
    and s1: "s1 = s2\<lparr>tasks := (tasks s2)[tid := p]\<rparr>"
    by (auto split: if_splits option.splits)
  from resume_replay [OF res assms(2)] s1 show ?thesis by simp
qed

lemma run_replay:
  "run es s = Some s1 \<Longrightarrow> replay ({}, False) (trace s) = Some (ir_on s, False) \<Longrightarrow>
     replay ({}, False) (trace s1) = Some (ir_on s1, False)"
proof (induction es arbitrary: s)
  case Nil
  then show ?case by simp
next
  case (Cons e es)
  from Cons.prems(1) obtain s2 where st: "step e s = Some s2" and rest: "run es s2 = Some s1"
    by (auto split: option.splits)
  from Cons.IH [OF rest step_replay [OF st Cons.prems(2)]] show ?case .
qed

text \<open>
  C6. The handler of a reading trips exactly when the distance is below 150 and its
  observer is still started: it then stops the observer first, and only then sets the
  flag and announces. Below the threshold with the observer already stopped,
  \<^verbatim>\<open>observer.stop()\<close> raises and the handler ends with no notification; at 150 or
  above it only prints the distance. In every run of the program the trace replays:
  each notification directly follows a stop that found its observer started, so
  between two notifications for one observer that observer has been started again,
  however many readings were delivered in between.
\<close>

theorem obstacle_monitor_debounced:
  "resume (Ir_start obs distance) Ack s0 =
     Some (if distance < 150
           then if obs \<in> ir_on s0
                then (Ir_tts obs,
                      s0\<lparr>STOP_MOVE_SEQUENCE := True, ir_on := ir_on s0 - {obs},
                         trace := trace s0 @ [IrStop obs, SetStop True,
                                              Tts ''Obstacle detected, stopping movement.''],
                         console := console s0 @ [Distance distance]\<rparr>)
                else (Raised,
                      s0\<lparr>trace := trace s0 @ [Raising (IrStop obs)],
                         console := console s0 @ [Distance distance]\<rparr>)
           else (Done, s0\<lparr>console := console s0 @ [Distance distance]\<rparr>))
   \<and> (run es (init table) = Some s \<longrightarrow>
        replay ({}, False) (trace s) = Some (ir_on s, False))"
proof
  show "resume (Ir_start obs distance) Ack s0 =
     Some (if distance < 150
           then if obs \<in> ir_on s0
                then (Ir_tts obs,
                      s0\<lparr>STOP_MOVE_SEQUENCE := True, ir_on := ir_on s0 - {obs},
                         trace := trace s0 @ [IrStop obs, SetStop True,
                                              Tts ''Obstacle detected, stopping movement.''],
                         console := console s0 @ [Distance distance]\<rparr>)
                else (Raised,
                      s0\<lparr>trace := trace s0 @ [Raising (IrStop obs)],
                         console := console s0 @ [Distance distance]\<rparr>)
           else (Done, s0\<lparr>console := console s0 @ [Distance distance]\<rparr>))"
    by (simp add: prims)
  show "run es (init table) = Some s \<longrightarrow> replay ({}, False) (trace s) = Some (ir_on s, False)"
    using run_replay [of es "init table" s] by (simp add: init_def)
qed

theorem obstacle_monitor_debounced_witness:
  "run (boot @ start_task @ [Reading 0 100, Reading 0 100, Run 2 Ack, Run 3 Ack])
       (init latin) =
     Some (cruising\<lparr>STOP_MOVE_SEQUENCE := True, ir_on := {},
             tasks := [Main_idle, Seq_move L49, Ir_tts 0, Raised],
             trace := trace cruising @
               [IrStop 0, SetStop True, Tts ''Obstacle detected, stopping movement.'',
                Raising (IrStop 0)],
             console := console cruising @ [Distance 100, Distance 100]\<rparr>)
   \<and> replay ({}, False)
        (trace cruising @
           [IrStop 0, SetStop True, Tts ''Obstacle detected, stopping movement.'',
            Raising (IrStop 0)]) = Some ({}, False)"
proof -
  let ?es = "boot @ start_task @ [Reading 0 100, Reading 0 100, Run 2 Ack, Run 3 Ack]"
  let ?F = "cruising\<lparr>STOP_MOVE_SEQUENCE := True, ir_on := {},
             tasks := [Main_idle, Seq_move L49, Ir_tts 0, Raised],
             trace := trace cruising @
               [IrStop 0, SetStop True, Tts ''Obstacle detected, stopping movement.'',
                Raising (IrStop 0)],
             console := console cruising @ [Distance 100, Distance 100]\<rparr>"
  have r: "run ?es (init latin) = Some ?F"
    by (simp add: prims loop norm Let_def cruising_def)
  from obstacle_monitor_debounced [where table = latin and es = ?es and s = ?F]
  have "run ?es (init latin) = Some ?F \<longrightarrow>
          replay ({}, False) (trace ?F) = Some (ir_on ?F, False)"
    by (rule conjunct2)
  with r have "replay ({}, False) (trace ?F) = Some (ir_on ?F, False)" by (rule rev_mp)
  with r show ?thesis by simp
qed

subsection \<open>The speech handler\<close>

text \<open>
  C7 (corrected). The claim: every utterance is trimmed, lowercased and matched
  exactly, \<^verbatim>\<open>hello.\<close> producing the start behaviour and \<^verbatim>\<open>finish.\<close> the abort
  behaviour, with the listener unsubscribed on a match. In the run below two utterances
  \<^verbatim>\<open>hello.\<close> are delivered before the first handler has stopped the speech observer
  (it does so only after its announcement). Both handlers announce; the first stops the
  observer and starts the infrared observer; the second finds the observer stopped, its
  \<^verbatim>\<open>observer.stop()\<close> raises, and it starts no infrared observer and no sequence.
\<close>

theorem second_hello_starts_nothing:
  "run (boot @ [Utter (cps ''hello.''), Utter (cps ''hello.''), Run 1 Ack, Run 2 Ack,
                Run 1 (Api ok), Run 2 (Api ok)]) (init latin) =
     Some (listening\<lparr>speech_on := False, ir_on := {0}, observers := 1,
             tasks := [Main_idle, Speech_hello_yield, Raised],
             trace := trace listening @
               [Tts ''Starting cleaning process'', Tts ''Starting cleaning process'',
                SpeechStop, IrStart 0, Sleep 0, Raising SpeechStop],
             console := console listening @
               [RawSpeech (cps ''hello.''), RecognizedStart, RawSpeech (cps ''hello.''),
                RecognizedStart, TtsResponse ok, TtsResponse ok]\<rparr>)"
  by (simp add: prims loop norm Let_def listening_def)

text \<open>
  C7 as amended. The handler of an utterance compares \<open>lower (strip utterance)\<close> with
  the two commands. On \<^verbatim>\<open>hello.\<close>, if the speech observer is still started when the
  handler's announcement completes, it announces, stops the speech observer, starts a new
  infrared observer and enters the movement sequence; on \<^verbatim>\<open>finish.\<close>, under the same
  condition, it announces, stops the speech observer, quits program mode and releases
  the connection; on anything else it ends at once, having changed nothing (it prints
  the normalised text, and the flag keeps the value it found).
\<close>

theorem speech_handler:
  "(lower (str_lower s) (strip utterance) = cps ''hello.'' \<and> speech_on s \<longrightarrow>
      drive (Speech_start utterance) [(ba, Ack), (bb, Api r), (bc, Ack)] s =
        Some (Seq_move L49,
              s\<lparr>STOP_MOVE_SEQUENCE := False, speech_on := False,
                ir_on := insert (observers s) (ir_on s), observers := Suc (observers s),
                trace := trace s @ [Tts ''Starting cleaning process'', SpeechStop,
                                    IrStart (observers s), Sleep 0, SetStop False,
                                    Move FORWARD 9],
                console := console s @ [RawSpeech (cps ''hello.''), RecognizedStart,
                                        TtsResponse r]\<rparr>))
   \<and> (lower (str_lower s) (strip utterance) = cps ''finish.'' \<and> speech_on s \<longrightarrow>
      drive (Speech_start utterance) [(ba, Ack), (bb, Api r), (bc, Ack), (bd, Ack)] s =
        Some (Done,
              s\<lparr>STOP_MOVE_SEQUENCE := bd, speech_on := False,
                trace := trace s @ [Tts ''Shutting down.'', SpeechStop, QuitProgram, Release],
                console := console s @ [RawSpeech (cps ''finish.''), RecognizedFinish,
                                        TtsResponse r]\<rparr>))
   \<and> (lower (str_lower s) (strip utterance) \<noteq> cps ''hello.''
        \<and> lower (str_lower s) (strip utterance) \<noteq> cps ''finish.'' \<longrightarrow>
      drive (Speech_start utterance) [(ba, Ack)] s =
        Some (Done,
              s\<lparr>STOP_MOVE_SEQUENCE := ba,
                console := console s @
                  [RawSpeech (lower (str_lower s) (strip utterance))]\<rparr>))"
  by (simp add: prims Let_def cps_def)

theorem speech_handler_witness:
  "drive (Speech_start (cps ''  HeLLo. '')) [(False, Ack), (False, Api ok), (False, Ack)]
     listening =
     Some (Seq_move L49,
           listening\<lparr>speech_on := False, ir_on := {0}, observers := 1,
                trace := trace listening @
                  [Tts ''Starting cleaning process'', SpeechStop, IrStart 0, Sleep 0,
                   SetStop False, Move FORWARD 9],
                console := console listening @
                  [RawSpeech (cps ''hello.''), RecognizedStart, TtsResponse ok]\<rparr>)
   \<and> drive (Speech_start ([9, 160, 8195] @ cps ''FINISH.'' @ [133, 12288, 10]))
        [(False, Ack), (False, Api ok), (False, Ack), (False, Ack)] listening =
     Some (Done,
           listening\<lparr>speech_on := False,
                trace := trace listening @
                  [Tts ''Shutting down.'', SpeechStop, QuitProgram, Release],
                console := console listening @
                  [RawSpeech (cps ''finish.''), RecognizedFinish, TtsResponse ok]\<rparr>)
   \<and> drive (Speech_start ([32, 192, 215, 222, 72] @ cps ''ello. x'')) [(False, Ack)]
        listening =
     Some (Done, listening\<lparr>console := console listening @
                                [RawSpeech ([224, 215, 254, 104] @ cps ''ello. x'')]\<rparr>)"
  using speech_handler [where utterance = "cps ''  HeLLo. ''" and s = listening and r = ok
                          and ba = False and bb = False and bc = False]
        speech_handler [where utterance = "[9, 160, 8195] @ cps ''FINISH.'' @ [133, 12288, 10]"
                          and s = listening and r = ok
                          and ba = False and bb = False and bc = False and bd = False]
        speech_handler [where utterance = "[32, 192, 215, 222, 72] @ cps ''ello. x''"
                          and s = listening and ba = False]
  by (simp add: norm listening_def latin_def)






subsection \<open>Start-up\<close>

lemma resume_tasks0: "resume p r s = Some (p1, s1) \<Longrightarrow> tasks s1 = tasks s"
  by (auto dest: resume_tasks)

lemma main_past_step:
  assumes "main_past s" and "step e s = Some s1"
  shows "main_past s1 \<or> exited s1" and "e \<noteq> Run 0 (Found None)"
proof -
  have "(main_past s1 \<or> exited s1) \<and> e \<noteq> Run 0 (Found None)"
  proof (cases e)
    case (Utter u)
    with assms show ?thesis
      by (auto simp: main_past_def spawn_def split: list.splits if_splits)
  next
    case (Reading obs d)
    with assms show ?thesis
      by (auto simp: main_past_def spawn_def split: list.splits if_splits)
  next
    case (Run tid r)
    with assms obtain p s2 where res: "resume (tasks s ! tid) r s = Some (p, s2)"
      and s1: "s1 = s2\<lparr>tasks := (tasks s2)[tid := p]\<rparr>"
      by (auto split: if_splits option.splits)
    have same: "tasks s2 = tasks s" using res by (rule resume_tasks0)
    obtain q qs where ts: "tasks s = q # qs"
      and q: "q = Main_connect \<or> q = Main_enter \<or> q = Main_idle"
      using assms(1) by (auto simp: main_past_def split: list.splits)
    show ?thesis
    proof (cases tid)
      case 0
      with res ts q have "p = Main_enter \<or> p = Main_idle \<or> p = Raised" and "r \<noteq> Found None"
        by (auto split: reply.splits if_splits)
      with 0 Run s1 same ts show ?thesis by (auto simp: main_past_def exited_def)
    next
      case (Suc n)
      with Run s1 same ts q show ?thesis by (auto simp: main_past_def)
    qed
  qed
  then show "main_past s1 \<or> exited s1" and "e \<noteq> Run 0 (Found None)" by simp_all
qed

lemma main_past_run:
  "main_past s \<Longrightarrow> run es s = Some s1 \<Longrightarrow> Run 0 (Found None) \<notin> set es"
proof (induction es arbitrary: s)
  case Nil
  then show ?case by simp
next
  case (Cons e es)
  then obtain s2 where st: "step e s = Some s2" and rest: "run es s2 = Some s1"
    by (auto split: option.splits)
  from main_past_step [OF Cons.prems(1) st]
  have alt: "main_past s2 \<or> exited s2" and e: "e \<noteq> Run 0 (Found None)" .
  from alt have "Run 0 (Found None) \<notin> set es"
  proof
    assume "main_past s2"
    from Cons.IH [OF this rest] show ?thesis .
  next
    assume "exited s2"
    from exited_run [OF this rest] show ?thesis by simp
  qed
  with e show ?case by simp
qed

lemma first_step:
  "step e (init table) = Some s1 \<Longrightarrow>
     e = Run 0 Ack \<and>
     s1 = (init table)\<lparr>tasks := [Main_discover], trace := [Discover ''00345'' 10]\<rparr>"
  by (cases e)
     (auto simp: init_def exited_def prims split: if_splits option.splits reply.splits)

lemma second_step:
  assumes "step e ((init table)\<lparr>tasks := [Main_discover],
                                trace := [Discover ''00345'' 10]\<rparr>) = Some s1"
  shows "e = Run 0 (Found None) \<and>
           s1 = (init table)\<lparr>tasks := [Done], trace := [Discover ''00345'' 10],
                             console := [DeviceFound None]\<rparr>
         \<or> e \<noteq> Run 0 (Found None) \<and> main_past s1"
  using assms
  by (cases e)
     (auto simp: init_def exited_def prims main_past_def Let_def
           split: if_splits option.splits reply.splits)

text \<open>
  C8. In every run of the program in which discovery returns no device, the run is
  exactly: main starts, discovery returns. The only action ever performed is the one
  call of \<^verbatim>\<open>Mini.get_device_by_name\<close>: no connection, no program mode, no observer,
  no actuator command, no second discovery; main has returned and no task is left.
\<close>

theorem no_device_never_starts:
  assumes "run es (init table) = Some s" and "Run 0 (Found None) \<in> set es"
  shows "es = [Run 0 Ack, Run 0 (Found None)] \<and>
         s = (init table)\<lparr>tasks := [Done], trace := [Discover ''00345'' 10],
                          console := [DeviceFound None]\<rparr>"
proof -
  from assms obtain e1 es1 where es: "es = e1 # es1" by (cases es) auto
  with assms(1) obtain s1 where st1: "step e1 (init table) = Some s1"
    and r1: "run es1 s1 = Some s"
    by (auto split: option.splits)
  from first_step [OF st1] have e1: "e1 = Run 0 Ack"
    and s1: "s1 = (init table)\<lparr>tasks := [Main_discover], trace := [Discover ''00345'' 10]\<rparr>"
    by auto
  from assms(2) es e1 obtain e2 es2 where es1: "es1 = e2 # es2" by (cases es1) auto
  with r1 obtain s2 where st2: "step e2 s1 = Some s2" and r2: "run es2 s2 = Some s"
    by (auto split: option.splits)
  from second_step [OF st2 [unfolded s1]] show ?thesis
  proof
    assume a: "e2 = Run 0 (Found None) \<and>
      s2 = (init table)\<lparr>tasks := [Done], trace := [Discover ''00345'' 10],
                        console := [DeviceFound None]\<rparr>"
    then have ex: "exited s2" by (simp add: exited_def)
    from exited_run [OF ex r2] have "es2 = []" .
    with a r2 es es1 e1 show ?thesis by simp
  next
    assume a: "e2 \<noteq> Run 0 (Found None) \<and> main_past s2"
    with r2 have "Run 0 (Found None) \<notin> set es2" by (auto dest: main_past_run)
    with a assms(2) es es1 e1 show ?thesis by simp
  qed
qed

theorem no_device_never_starts_witness:
  "run [Run 0 Ack, Run 0 (Found None)] (init latin) =
     Some ((init latin)\<lparr>tasks := [Done], trace := [Discover ''00345'' 10],
                       console := [DeviceFound None]\<rparr>)
   \<and> Run 0 (Found None) \<in> set [Run 0 Ack, Run 0 (Found None)]"
proof -
  have r: "run [Run 0 Ack, Run 0 (Found None)] (init latin) =
     Some ((init latin)\<lparr>tasks := [Done], trace := [Discover ''00345'' 10],
                       console := [DeviceFound None]\<rparr>)"
    by (simp add: prims init_def exited_def Let_def)
  have m: "Run 0 (Found None) \<in> set [Run 0 Ack, Run 0 (Found None)]" by simp
  from no_device_never_starts [OF r m] r m show ?thesis by simp
qed

text \<open>
  C10 (corrected). The claim: when discovery returns a device, main enters program
  mode and subscribes to the speech stream even if \<^verbatim>\<open>Mini.connect\<close> reports failure.
  In the run below \<^verbatim>\<open>Mini.connect\<close> returns \<^verbatim>\<open>False\<close>: main calls
  \<^verbatim>\<open>Mini.enter_program()\<close>, which raises; main ends with the exception, the speech
  observer is never started, and the program is over (no event is possible any more).
\<close>

theorem failed_connect_ends_main:
  "run [Run 0 Ack, Run 0 (Found (Some robot)), Run 0 (Conn False)] (init latin) =
     Some ((init latin)
       \<lparr>tasks := [Raised],
        trace := [Discover ''00345'' 10, Connect robot, Raising EnterProgram],
        console := [DeviceFound (Some robot)]\<rparr>)
   \<and> step (Run 0 Ack) ((init latin)
       \<lparr>tasks := [Raised],
        trace := [Discover ''00345'' 10, Connect robot, Raising EnterProgram],
        console := [DeviceFound (Some robot)]\<rparr>) = None"
  by (simp add: prims init_def exited_def)

text \<open>
  C10 as amended. The result of \<^verbatim>\<open>Mini.connect\<close> is never checked: when discovery
  returns a device, main calls \<^verbatim>\<open>Mini.enter_program()\<close> whatever \<^verbatim>\<open>Mini.connect\<close>
  returned. After a successful connect, when that call returns, main starts the speech
  observer and idles.
\<close>

theorem connect_result_unchecked:
  "run [Run 0 Ack, Run 0 (Found (Some dev)), Run 0 (Conn b)] (init table) =
     Some ((init table)
       \<lparr>tasks := [if b then Main_enter else Raised],
        trace := [Discover ''00345'' 10, Connect dev,
                  if b then EnterProgram else Raising EnterProgram],
        console := [DeviceFound (Some dev)]\<rparr>)
   \<and> run [Run 0 Ack, Run 0 (Found (Some dev)), Run 0 (Conn True), Run 0 Ack] (init table) =
     Some ((init table)
       \<lparr>speech_on := True, tasks := [Main_idle],
        trace := [Discover ''00345'' 10, Connect dev, EnterProgram, SpeechStart, Sleep 1],
        console := [DeviceFound (Some dev)]\<rparr>)"
  by (simp add: prims init_def exited_def)

end
